theory Spec2Isabelle
  imports Main "HOL-Library.Sublist" "HOL-Library.Char_ord" "HOL-Library.List_Lexorder"
begin

section \<open>First-level workflow helpers of neuroscout-cli\<close>

text \<open>
  The three pure helper functions that \<^verbatim>\<open>create_first_level\<close> (file
  \<^verbatim>\<open>neuroscout_cli/workflows/first_level.py\<close>) wraps into nipype \<^verbatim>\<open>Function\<close> nodes are
  embedded here: \<^verbatim>\<open>get_subs\<close>, \<^verbatim>\<open>sort_copes\<close> and \<^verbatim>\<open>get_data\<close>. Python exceptions are
  values of the type \<open>error\<close>; a function that can raise returns \<open>error + 'a\<close>.
\<close>

datatype error = ValueError | ZeroDivisionError | IndexError

subsection \<open>String formatting\<close>

text \<open>
  \<^verbatim>\<open>'%d' % n\<close> for a non-negative integer: its decimal digits, most significant first.
  \<open>digit_char\<close> is only applied to numbers below ten.
\<close>

definition digit_char :: "nat \<Rightarrow> char" where
  "digit_char d = ''0123456789'' ! d"

fun str_nat :: "nat \<Rightarrow> string" where
  "str_nat n = (if n < 10 then [digit_char n] else str_nat (n div 10) @ [digit_char (n mod 10)])"

declare str_nat.simps [simp del]

text \<open>
  \<^verbatim>\<open>'%02d' % n\<close>: the decimal digits, padded on the left with zeros to a width of at least two.
\<close>

definition fmt_02d :: "nat \<Rightarrow> string" where
  "fmt_02d n = (let s = str_nat n in replicate (2 - length s) (CHR ''0'') @ s)"

subsection \<open>The substitution table: \<^verbatim>\<open>get_subs\<close>\<close>

text \<open>
  \<^verbatim>\<open>
  def get_subs(subject_id, conds):
      subs = [('_subject_id_%s' % subject_id, '')]
      for i in range(len(conds)):
          subs.append(('_flameo%d/cope1.' % i, 'cope%02d.' % (i + 1)))
          ...
          subs.append(('_warpall%d/zstat1_trans.' % (2 * len(conds) + i),
                       'zstat%02d.' % (i + 1)))
      return subs
  \<close>
  The body of the loop appends eleven pairs; \<open>subs_for n i\<close> is the list of those eleven
  pairs for the index \<open>i\<close>, where \<open>n\<close> is \<^verbatim>\<open>len(conds)\<close>. The subject identifier is the
  string that \<^verbatim>\<open>%s\<close> renders.
\<close>

definition subs_for :: "nat \<Rightarrow> nat \<Rightarrow> (string \<times> string) list" where
  "subs_for n i =
    [(''_flameo'' @ str_nat i @ ''/cope1.'', ''cope'' @ fmt_02d (i + 1) @ ''.''),
     (''_flameo'' @ str_nat i @ ''/varcope1.'', ''varcope'' @ fmt_02d (i + 1) @ ''.''),
     (''_flameo'' @ str_nat i @ ''/zstat1.'', ''zstat'' @ fmt_02d (i + 1) @ ''.''),
     (''_flameo'' @ str_nat i @ ''/tstat1.'', ''tstat'' @ fmt_02d (i + 1) @ ''.''),
     (''_flameo'' @ str_nat i @ ''/res4d.'', ''res4d'' @ fmt_02d (i + 1) @ ''.''),
     (''_warpall'' @ str_nat i @ ''/cope1_warp.'', ''cope'' @ fmt_02d (i + 1) @ ''.''),
     (''_warpall'' @ str_nat (n + i) @ ''/varcope1_warp.'', ''varcope'' @ fmt_02d (i + 1) @ ''.''),
     (''_warpall'' @ str_nat (2 * n + i) @ ''/zstat1_warp.'', ''zstat'' @ fmt_02d (i + 1) @ ''.''),
     (''_warpall'' @ str_nat i @ ''/cope1_trans.'', ''cope'' @ fmt_02d (i + 1) @ ''.''),
     (''_warpall'' @ str_nat (n + i) @ ''/varcope1_trans.'', ''varcope'' @ fmt_02d (i + 1) @ ''.''),
     (''_warpall'' @ str_nat (2 * n + i) @ ''/zstat1_trans.'', ''zstat'' @ fmt_02d (i + 1) @ ''.'')]"

definition get_subs :: "string \<Rightarrow> 'c list \<Rightarrow> (string \<times> string) list" where
  "get_subs subject_id conds =
    (''_subject_id_'' @ subject_id, '''') #
    concat (map (subs_for (length conds)) [0..<length conds])"

subsection \<open>The reshape of the fan-in: \<^verbatim>\<open>sort_copes\<close>\<close>

text \<open>
  The node receives whatever the model-fit workflow hands over: a single file name, a list
  of file names, or a list of lists of file names. A Python value is therefore either
  something that is not a list (\<open>Atom\<close>) or a list of values (\<open>PyList\<close>).
\<close>

datatype 'a pyval = Atom 'a | PyList "'a pyval list"

text \<open>
  \<^verbatim>\<open>np.array(v)\<close> builds an array when the nesting of \<open>v\<close> is regular; \<open>np_shape\<close> is
  the shape it finds. On a nesting that is not regular (rows of different lengths, or lists
  beside atoms) numpy raises \<^verbatim>\<open>ValueError\<close> (since numpy 1.24; older releases built an
  array of objects instead, with a warning): \<open>np_shape\<close> is \<open>None\<close> there.
\<close>

fun np_shape :: "'a pyval \<Rightarrow> nat list option" where
  "np_shape (Atom a) = Some []"
| "np_shape (PyList []) = Some [0]"
| "np_shape (PyList (x # xs)) =
     (case np_shape x of
        None \<Rightarrow> None
      | Some sh \<Rightarrow> if list_all (\<lambda>y. np_shape y = Some sh) xs
                  then Some (Suc (length xs) # sh) else None)"

text \<open>The elements of the array in row-major order, which is what \<^verbatim>\<open>flatten()\<close> returns.\<close>

fun atoms :: "'a pyval \<Rightarrow> 'a list" where
  "atoms (Atom a) = [a]"
| "atoms (PyList xs) = concat (map atoms xs)"

definition np_array_flatten :: "'a pyval \<Rightarrow> error + 'a list" where
  "np_array_flatten v = (case np_shape v of None \<Rightarrow> Inl ValueError | Some sh \<Rightarrow> Inr (atoms v))"

text \<open>
  \<^verbatim>\<open>int(len(all_copes) / num_copes)\<close>: the division raises \<^verbatim>\<open>ZeroDivisionError\<close> for a
  zero divisor; otherwise the quotient of two non-negative integers is truncated, which is
  the integer quotient (the floating-point division is exact far beyond any number of
  files).
\<close>

definition int_of_quotient :: "nat \<Rightarrow> nat \<Rightarrow> error + nat" where
  "int_of_quotient n d = (if d = 0 then Inl ZeroDivisionError else Inr (n div d))"

text \<open>
  \<^verbatim>\<open>a.reshape(r, c)\<close> of a one-dimensional array: numpy raises \<^verbatim>\<open>ValueError\<close> unless
  \<open>r * c\<close> is the number of elements; the result is given by its \<open>r\<close> rows of \<open>c\<close>
  elements. \<^verbatim>\<open>.T.tolist()\<close> of that array of shape \<open>(r, c)\<close> is the list of its \<open>c\<close>
  columns.
\<close>

definition np_reshape :: "'a list \<Rightarrow> nat \<Rightarrow> nat \<Rightarrow> error + 'a list list" where
  "np_reshape a r c =
     (if r * c = length a then Inr (map (\<lambda>i. take c (drop (i * c) a)) [0..<r])
      else Inl ValueError)"

definition np_T_tolist :: "nat \<Rightarrow> 'a list list \<Rightarrow> 'a list list" where
  "np_T_tolist c rows = map (\<lambda>j. map (\<lambda>row. row ! j) rows) [0..<c]"

text \<open>
  \<^verbatim>\<open>
  def sort_copes(copes, varcopes, contrasts):
      import numpy as np
      if not isinstance(copes, list):
          copes = [copes]
          varcopes = [varcopes]
      num_copes = len(contrasts)
      n_runs = len(copes)
      all_copes = np.array(copes).flatten()
      all_varcopes = np.array(varcopes).flatten()
      outcopes = all_copes.reshape(int(len(all_copes) / num_copes),
                                   num_copes).T.tolist()
      outvarcopes = all_varcopes.reshape(int(len(all_varcopes) / num_copes),
                                         num_copes).T.tolist()
      return outcopes, outvarcopes, n_runs
  \<close>
  \<open>sort_copes_list\<close> is the function from \<^verbatim>\<open>num_copes = ...\<close> on, where \<open>copes\<close> is a list,
  given by its elements.
\<close>

definition sort_copes_list ::
  "'a pyval list \<Rightarrow> 'a pyval \<Rightarrow> 'c list \<Rightarrow> error + ('a list list \<times> 'a list list \<times> nat)" where
  "sort_copes_list copes varcopes contrasts =
    (let num_copes = length contrasts;
         n_runs = length copes
     in case np_array_flatten (PyList copes) of
          Inl e \<Rightarrow> Inl e
        | Inr all_copes \<Rightarrow>
     (case np_array_flatten varcopes of
          Inl e \<Rightarrow> Inl e
        | Inr all_varcopes \<Rightarrow>
     (case int_of_quotient (length all_copes) num_copes of
          Inl e \<Rightarrow> Inl e
        | Inr r \<Rightarrow>
     (case np_reshape all_copes r num_copes of
          Inl e \<Rightarrow> Inl e
        | Inr m \<Rightarrow>
     (case int_of_quotient (length all_varcopes) num_copes of
          Inl e \<Rightarrow> Inl e
        | Inr r' \<Rightarrow>
     (case np_reshape all_varcopes r' num_copes of
          Inl e \<Rightarrow> Inl e
        | Inr m' \<Rightarrow> Inr (np_T_tolist num_copes m, np_T_tolist num_copes m', n_runs)))))))"

definition sort_copes ::
  "'a pyval \<Rightarrow> 'a pyval \<Rightarrow> 'c list \<Rightarrow> error + ('a list list \<times> 'a list list \<times> nat)" where
  "sort_copes copes varcopes contrasts =
    (case copes of
       PyList cs \<Rightarrow> sort_copes_list cs varcopes contrasts
     | Atom a \<Rightarrow> sort_copes_list [copes] (PyList [varcopes]) contrasts)"

subsection \<open>The data source: \<^verbatim>\<open>get_data\<close>\<close>

text \<open>
  An entry of the run manifest \<^verbatim>\<open>runs\<close> is a dictionary read at the keys \<^verbatim>\<open>subject\<close>,
  \<^verbatim>\<open>number\<close>, \<^verbatim>\<open>func_path\<close> and \<^verbatim>\<open>mask_path\<close>. The event table is a pandas data frame,
  given by its rows in order, with the columns \<^verbatim>\<open>subject\<close>, \<^verbatim>\<open>run\<close>, \<^verbatim>\<open>condition\<close>,
  \<^verbatim>\<open>onset\<close>, \<^verbatim>\<open>duration\<close> and \<^verbatim>\<open>amplitude\<close>; subject and run are integers there (they
  are compared with the results of \<^verbatim>\<open>int\<close>), and the three measurements are only copied, so
  that their type \<open>'v\<close> is left open. A \<^verbatim>\<open>Bunch\<close> holds the four lists the loop fills.
\<close>

record run_info =
  subject :: string
  number :: string
  func_path :: string
  mask_path :: string

record 'v event =
  ev_subject :: int
  ev_run :: int
  ev_condition :: string
  ev_onset :: 'v
  ev_duration :: 'v
  ev_amplitude :: 'v

record 'v bunch =
  conditions :: "string list"
  onsets :: "'v list list"
  durations :: "'v list list"
  amplitudes :: "'v list list"

text \<open>
  Iterating over \<^verbatim>\<open>frame.groupby(column)\<close> yields, for each value of the column in
  ascending order, the value and the rows that have it, in their order in the frame.
\<close>

definition groupby :: "('r \<Rightarrow> 'k::linorder) \<Rightarrow> 'r list \<Rightarrow> ('k \<times> 'r list) list" where
  "groupby col frame =
     map (\<lambda>k. (k, filter (\<lambda>row. col row = k) frame)) (sort (remdups (map col frame)))"

text \<open>
  \<^verbatim>\<open>os.path.join(a, b)\<close> of \<^verbatim>\<open>posixpath\<close>: an absolute \<open>b\<close> replaces \<open>a\<close>; otherwise \<open>b\<close> is
  appended, after a separator unless \<open>a\<close> is empty or ends with one.
\<close>

definition os_path_join :: "string \<Rightarrow> string \<Rightarrow> string" where
  "os_path_join a b =
     (if take 1 b = ''/'' then b
      else if a = [] \<or> last a = CHR ''/'' then a @ b
      else a @ ''/'' @ b)"

text \<open>
  The list comprehension \<^verbatim>\<open>[int(x) for x in xs]\<close>, where \<open>py_int\<close> gives the integer that
  \<^verbatim>\<open>int\<close> reads from a string, or \<open>None\<close> where \<^verbatim>\<open>int\<close> raises \<^verbatim>\<open>ValueError\<close>: the
  comprehension raises at the first such element.
\<close>

fun int_each :: "(string \<Rightarrow> int option) \<Rightarrow> string list \<Rightarrow> int list option" where
  "int_each py_int [] = Some []"
| "int_each py_int (x # xs) =
     (case py_int x of
        None \<Rightarrow> None
      | Some n \<Rightarrow> (case int_each py_int xs of None \<Rightarrow> None | Some ns \<Rightarrow> Some (n # ns)))"

text \<open>The body of the loop over the runs of the subject: the bunch of one run.\<close>

definition make_bunch :: "'v event list \<Rightarrow> 'v bunch" where
  "make_bunch run_data =
     (let by_condition = groupby ev_condition run_data
      in \<lparr>conditions = map (\<lambda>(c, cond_data). c) by_condition,
          onsets = map (\<lambda>(c, cond_data). map ev_onset cond_data) by_condition,
          durations = map (\<lambda>(c, cond_data). map ev_duration cond_data) by_condition,
          amplitudes = map (\<lambda>(c, cond_data). map ev_amplitude cond_data) by_condition\<rparr>)"

text \<open>
  \<^verbatim>\<open>
  def get_data(bids_dir, subject_id, event_data, runs):
      subject_bunches = []
      subject_data = event_data[event_data['subject'] == int(subject_id)]
      subject_runs = [int(r['number']) for r in runs if r['subject'] == subject_id]
      for r, run_data in subject_data.groupby('run'):
          if r in subject_runs:
              ...
              subject_bunches.append(bunch)
      func = [r['func_path'] for r in runs if r['subject'] == subject_id]
      func = [os.path.join(bids_dir, f) for f in func]
      bm = [r['mask_path'] for r in runs if r['subject'] == subject_id]
      bm = [os.path.join(bids_dir, b) for b in bm]
      bm = bm[0]  # DANGER DANGER (but gets it to work)
      return func, bm, subject_bunches
  \<close>
  The function \<^verbatim>\<open>int\<close> of Python is the first argument of the model.
\<close>

definition get_data ::
  "(string \<Rightarrow> int option) \<Rightarrow> string \<Rightarrow> string \<Rightarrow> 'v event list \<Rightarrow> run_info list \<Rightarrow>
     error + (string list \<times> string \<times> 'v bunch list)" where
  "get_data py_int bids_dir subject_id event_data runs =
    (case py_int subject_id of
       None \<Rightarrow> Inl ValueError
     | Some sid \<Rightarrow>
    (let subject_data = filter (\<lambda>e. ev_subject e = sid) event_data
     in case int_each py_int (map number (filter (\<lambda>r. subject r = subject_id) runs)) of
       None \<Rightarrow> Inl ValueError
     | Some subject_runs \<Rightarrow>
    (let subject_bunches =
           map (\<lambda>(r, run_data). make_bunch run_data)
             (filter (\<lambda>(r, run_data). r \<in> set subject_runs) (groupby ev_run subject_data));
         func = map (os_path_join bids_dir)
                  (map func_path (filter (\<lambda>r. subject r = subject_id) runs));
         bm = map (os_path_join bids_dir)
                  (map mask_path (filter (\<lambda>r. subject r = subject_id) runs))
     in case bm of
          [] \<Rightarrow> Inl IndexError
        | b # _ \<Rightarrow> Inr (func, b, subject_bunches))))"

section \<open>Properties\<close>

subsection \<open>Decimal rendering and the layout of the substitution table\<close>

lemma digit_char_in: "d < 10 \<Longrightarrow> digit_char d \<in> set ''0123456789''"
  unfolding digit_char_def by (rule nth_mem) simp

lemma str_nat_digits: "set (str_nat n) \<subseteq> set ''0123456789''"
proof (induction n rule: str_nat.induct)
  case (1 n)
  show ?case
  proof (cases "n < 10")
    case True
    then show ?thesis using digit_char_in [of n] by (subst str_nat.simps) simp
  next
    case False
    have "digit_char (n mod 10) \<in> set ''0123456789''" by (rule digit_char_in) simp
    with False 1 show ?thesis by (subst str_nat.simps) simp
  qed
qed

lemma digit_char_inj: "a < 10 \<Longrightarrow> b < 10 \<Longrightarrow> digit_char a = digit_char b \<Longrightarrow> a = b"
proof -
  assume a: "a < 10" and b: "b < 10" and e: "digit_char a = digit_char b"
  have "(''0123456789'' ! a = ''0123456789'' ! b) = (a = b)"
    by (rule nth_eq_iff_index_eq) (use a b in simp_all)
  with e show ?thesis unfolding digit_char_def by blast
qed

lemma str_nat_nonempty: "str_nat n \<noteq> []"
  by (subst str_nat.simps) simp

lemma str_nat_inj: "str_nat n = str_nat m \<Longrightarrow> n = m"
proof (induction n arbitrary: m rule: str_nat.induct)
  case (1 n)
  show ?case
  proof (cases "n < 10")
    case n: True
    show ?thesis
    proof (cases "m < 10")
      case True
      with n 1(2) show ?thesis
        by (simp add: str_nat.simps [of n] str_nat.simps [of m] digit_char_inj)
    next
      case False
      with n 1(2) show ?thesis
        using str_nat_nonempty [of "m div 10"]
        by (simp add: str_nat.simps [of n] str_nat.simps [of m])
    qed
  next
    case n: False
    show ?thesis
    proof (cases "m < 10")
      case True
      with n 1(2) show ?thesis
        using str_nat_nonempty [of "n div 10"]
        by (simp add: str_nat.simps [of n] str_nat.simps [of m])
    next
      case False
      with n 1(2) have e: "str_nat (n div 10) = str_nat (m div 10)"
        and d: "digit_char (n mod 10) = digit_char (m mod 10)"
        by (simp_all add: str_nat.simps [of n] str_nat.simps [of m])
      from 1(1) [OF n e] have q: "n div 10 = m div 10" .
      from d have r: "n mod 10 = m mod 10" by (intro digit_char_inj) simp_all
      have "n = n div 10 * 10 + n mod 10" by simp
      also have "\<dots> = m div 10 * 10 + m mod 10" by (simp only: q r)
      also have "\<dots> = m" by simp
      finally show ?thesis .
    qed
  qed
qed

lemma str_nat_eq_iff: "str_nat n = str_nat m \<longleftrightarrow> n = m"
  using str_nat_inj by blast

lemma length_concat_const:
  "(\<And>x. x \<in> set xs \<Longrightarrow> length (f x) = m) \<Longrightarrow> length (concat (map f xs)) = m * length xs"
  by (induction xs) simp_all

lemma block_of_concat:
  assumes len: "\<And>j. length (f j) = m" and i: "i < n"
  shows "take m (drop (m * i) (concat (map f [0..<n]))) = f i"
proof -
  from i have "[0..<n] = [0..<i] @ i # [Suc i..<n]"
    using upt_add_eq_append [of 0 i "n - i"] upt_conv_Cons [of i n] by simp
  then have "concat (map f [0..<n]) = concat (map f [0..<i]) @ f i @ concat (map f [Suc i..<n])"
    by simp
  moreover have "length (concat (map f [0..<i])) = m * i"
    using length_concat_const [of "[0..<i]" f m] len by simp
  ultimately show ?thesis using len [of i] by simp
qed

lemma length_subs_for: "length (subs_for n i) = 11"
  by (simp add: subs_for_def)

lemma length_get_subs: "length (get_subs s conds) = 1 + 11 * length conds"
  using length_concat_const [of "[0..<length conds]" "subs_for (length conds)" 11]
  by (simp add: get_subs_def length_subs_for)

lemma get_subs_block:
  "i < length conds \<Longrightarrow> take 11 (drop (1 + 11 * i) (get_subs s conds)) = subs_for (length conds) i"
  using block_of_concat [of "subs_for (length conds)" 11 i "length conds"]
  by (simp add: get_subs_def length_subs_for)

lemma get_subs_nth:
  assumes "i < length conds" and "k < 11"
  shows "get_subs s conds ! (1 + 11 * i + k) = subs_for (length conds) i ! k"
proof -
  have "subs_for (length conds) i ! k = take 11 (drop (1 + 11 * i) (get_subs s conds)) ! k"
    using assms get_subs_block [of i conds s] by simp
  also have "\<dots> = get_subs s conds ! (1 + 11 * i + k)"
    using assms length_get_subs [of s conds] by simp
  finally show ?thesis by simp
qed


lemma slash_notin_str_nat: "CHR ''/'' \<notin> set (str_nat n)"
  using str_nat_digits [of n] by auto

lemma underscore_notin_str_nat: "CHR ''_'' \<notin> set (str_nat n)"
  using str_nat_digits [of n] by auto

lemma split_at_fresh:
  "x \<notin> set xs \<Longrightarrow> x \<notin> set xs' \<Longrightarrow> xs @ x # ys = xs' @ x # ys' \<Longrightarrow> xs = xs' \<and> ys = ys'"
proof (induction xs arbitrary: xs')
  case Nil
  then show ?case by (cases xs') auto
next
  case (Cons a xs)
  then show ?case by (cases xs') auto
qed

lemma str_nat_slash_eq:
  "str_nat a @ CHR ''/'' # u = str_nat b @ CHR ''/'' # v \<longleftrightarrow> a = b \<and> u = v"
  using split_at_fresh [OF slash_notin_str_nat [of a] slash_notin_str_nat [of b], of u v]
    str_nat_inj [of a b]
  by blast

lemma length_str_nat_small: "n < 10 \<Longrightarrow> length (str_nat n) = 1"
  by (subst str_nat.simps) simp

lemma length_str_nat_large: "10 \<le> n \<Longrightarrow> 2 \<le> length (str_nat n)"
  using str_nat_nonempty [of "n div 10"]
  by (subst str_nat.simps) (simp add: Suc_le_eq)

lemma fmt_02d_small: "n < 10 \<Longrightarrow> fmt_02d n = [CHR ''0'', digit_char n]"
  by (simp add: fmt_02d_def length_str_nat_small) (simp add: str_nat.simps)

lemma fmt_02d_large: "10 \<le> n \<Longrightarrow> fmt_02d n = str_nat n"
  using length_str_nat_large [of n] by (simp add: fmt_02d_def)

lemma underscore_notin_fmt_02d: "CHR ''_'' \<notin> set (fmt_02d n)"
  using underscore_notin_str_nat [of n] by (simp add: fmt_02d_def Let_def)

lemma in_get_subs_iff:
  "e \<in> set (get_subs s conds) \<longleftrightarrow>
     e = (''_subject_id_'' @ s, '''') \<or> (\<exists>i<length conds. e \<in> set (subs_for (length conds) i))"
  by (auto simp: get_subs_def)

lemma subs_for_underscore:
  "(p, r) \<in> set (subs_for n i) \<Longrightarrow> CHR ''_'' \<in> set p \<and> CHR ''_'' \<notin> set r"
  using underscore_notin_fmt_02d [of "i + 1"] by (auto simp: subs_for_def)

lemma get_subs_underscore:
  "(p, r) \<in> set (get_subs s conds) \<Longrightarrow> CHR ''_'' \<in> set p \<and> CHR ''_'' \<notin> set r"
  unfolding in_get_subs_iff using subs_for_underscore by auto

lemma map_of_unique:
  assumes "(p, r) \<in> set t" and "\<And>r'. (p, r') \<in> set t \<Longrightarrow> r' = r"
  shows "map_of t p = Some r"
proof (cases "map_of t p")
  case None
  with assms(1) show ?thesis by (metis map_of_eq_None_iff fst_conv image_eqI)
next
  case (Some r')
  then have "(p, r') \<in> set t" by (rule map_of_SomeD)
  with assms(2) Some show ?thesis by simp
qed

lemma subs_for_key:
  assumes "(p, r) \<in> set (subs_for n j)"
  shows "(p = ''_warpall'' @ str_nat i @ ''/cope1_warp.'' \<longrightarrow> j = i \<and> r = ''cope'' @ fmt_02d (i + 1) @ ''.'')"
    and "(p = ''_warpall'' @ str_nat i @ ''/cope1_trans.'' \<longrightarrow> j = i \<and> r = ''cope'' @ fmt_02d (i + 1) @ ''.'')"
    and "(p = ''_warpall'' @ str_nat (n + i) @ ''/varcope1_warp.'' \<longrightarrow> j = i \<and> r = ''varcope'' @ fmt_02d (i + 1) @ ''.'')"
    and "(p = ''_warpall'' @ str_nat (n + i) @ ''/varcope1_trans.'' \<longrightarrow> j = i \<and> r = ''varcope'' @ fmt_02d (i + 1) @ ''.'')"
    and "(p = ''_warpall'' @ str_nat (2 * n + i) @ ''/zstat1_warp.'' \<longrightarrow> j = i \<and> r = ''zstat'' @ fmt_02d (i + 1) @ ''.'')"
    and "(p = ''_warpall'' @ str_nat (2 * n + i) @ ''/zstat1_trans.'' \<longrightarrow> j = i \<and> r = ''zstat'' @ fmt_02d (i + 1) @ ''.'')"
  using assms by (auto simp: subs_for_def str_nat_slash_eq str_nat_eq_iff)


lemma get_subs_map_of:
  assumes i: "i < length conds"
    and mem: "(p, r) \<in> set (subs_for (length conds) i)"
    and uniq: "\<And>j r'. (p, r') \<in> set (subs_for (length conds) j) \<Longrightarrow> r' = r"
    and subj: "p \<noteq> ''_subject_id_'' @ s"
  shows "map_of (get_subs s conds) p = Some r"
proof (rule map_of_unique)
  show "(p, r) \<in> set (get_subs s conds)"
    unfolding in_get_subs_iff using i mem by blast
next
  fix r'
  assume "(p, r') \<in> set (get_subs s conds)"
  then show "r' = r"
    unfolding in_get_subs_iff using subj uniq by auto
qed

text \<open>
  Claim C1. For a contrast list of length \<open>C\<close> and every index \<open>i < C\<close>, the table holds, in
  the block of entries written for \<open>i\<close>, the warp-stage pattern of the cope at replica index
  \<open>i\<close>, of the varcope at replica index \<open>C + i\<close> and of the zstat at replica index
  \<open>2 * C + i\<close> (for the \<^verbatim>\<open>_warp\<close> and the \<^verbatim>\<open>_trans\<close> file names alike), each paired with the
  stable name numbered \<open>i + 1\<close>; and no other entry of the table has one of these patterns,
  so that looking the pattern up in the table gives that name.
\<close>

theorem get_subs_warp_offsets:
  assumes "i < length conds"
  shows "get_subs s conds ! (1 + 11 * i + 5) =
           (''_warpall'' @ str_nat i @ ''/cope1_warp.'', ''cope'' @ fmt_02d (i + 1) @ ''.'')
       \<and> get_subs s conds ! (1 + 11 * i + 6) =
           (''_warpall'' @ str_nat (length conds + i) @ ''/varcope1_warp.'',
            ''varcope'' @ fmt_02d (i + 1) @ ''.'')
       \<and> get_subs s conds ! (1 + 11 * i + 7) =
           (''_warpall'' @ str_nat (2 * length conds + i) @ ''/zstat1_warp.'',
            ''zstat'' @ fmt_02d (i + 1) @ ''.'')
       \<and> get_subs s conds ! (1 + 11 * i + 8) =
           (''_warpall'' @ str_nat i @ ''/cope1_trans.'', ''cope'' @ fmt_02d (i + 1) @ ''.'')
       \<and> get_subs s conds ! (1 + 11 * i + 9) =
           (''_warpall'' @ str_nat (length conds + i) @ ''/varcope1_trans.'',
            ''varcope'' @ fmt_02d (i + 1) @ ''.'')
       \<and> get_subs s conds ! (1 + 11 * i + 10) =
           (''_warpall'' @ str_nat (2 * length conds + i) @ ''/zstat1_trans.'',
            ''zstat'' @ fmt_02d (i + 1) @ ''.'')
       \<and> map_of (get_subs s conds) (''_warpall'' @ str_nat i @ ''/cope1_warp.'') =
           Some (''cope'' @ fmt_02d (i + 1) @ ''.'')
       \<and> map_of (get_subs s conds) (''_warpall'' @ str_nat (length conds + i) @ ''/varcope1_warp.'') =
           Some (''varcope'' @ fmt_02d (i + 1) @ ''.'')
       \<and> map_of (get_subs s conds) (''_warpall'' @ str_nat (2 * length conds + i) @ ''/zstat1_warp.'') =
           Some (''zstat'' @ fmt_02d (i + 1) @ ''.'')
       \<and> map_of (get_subs s conds) (''_warpall'' @ str_nat i @ ''/cope1_trans.'') =
           Some (''cope'' @ fmt_02d (i + 1) @ ''.'')
       \<and> map_of (get_subs s conds) (''_warpall'' @ str_nat (length conds + i) @ ''/varcope1_trans.'') =
           Some (''varcope'' @ fmt_02d (i + 1) @ ''.'')
       \<and> map_of (get_subs s conds) (''_warpall'' @ str_nat (2 * length conds + i) @ ''/zstat1_trans.'') =
           Some (''zstat'' @ fmt_02d (i + 1) @ ''.'')"
proof -
  let ?C = "length conds"
  have n5: "get_subs s conds ! (1 + 11 * i + 5) = subs_for ?C i ! 5"
    and n6: "get_subs s conds ! (1 + 11 * i + 6) = subs_for ?C i ! 6"
    and n7: "get_subs s conds ! (1 + 11 * i + 7) = subs_for ?C i ! 7"
    and n8: "get_subs s conds ! (1 + 11 * i + 8) = subs_for ?C i ! 8"
    and n9: "get_subs s conds ! (1 + 11 * i + 9) = subs_for ?C i ! 9"
    and n10: "get_subs s conds ! (1 + 11 * i + 10) = subs_for ?C i ! 10"
    using assms by (simp_all only: get_subs_nth [where k = 5] get_subs_nth [where k = 6]
        get_subs_nth [where k = 7] get_subs_nth [where k = 8] get_subs_nth [where k = 9]
        get_subs_nth [where k = 10])
  have m1: "map_of (get_subs s conds) (''_warpall'' @ str_nat i @ ''/cope1_warp.'') =
           Some (''cope'' @ fmt_02d (i + 1) @ ''.'')"
    by (rule get_subs_map_of [OF assms]) (simp add: subs_for_def, use subs_for_key(1) in blast, simp)
  have m2: "map_of (get_subs s conds) (''_warpall'' @ str_nat (?C + i) @ ''/varcope1_warp.'') =
           Some (''varcope'' @ fmt_02d (i + 1) @ ''.'')"
    by (rule get_subs_map_of [OF assms]) (simp add: subs_for_def, use subs_for_key(3) in blast, simp)
  have m3: "map_of (get_subs s conds) (''_warpall'' @ str_nat (2 * ?C + i) @ ''/zstat1_warp.'') =
           Some (''zstat'' @ fmt_02d (i + 1) @ ''.'')"
    by (rule get_subs_map_of [OF assms]) (simp add: subs_for_def, use subs_for_key(5) in blast, simp)
  have m4: "map_of (get_subs s conds) (''_warpall'' @ str_nat i @ ''/cope1_trans.'') =
           Some (''cope'' @ fmt_02d (i + 1) @ ''.'')"
    by (rule get_subs_map_of [OF assms]) (simp add: subs_for_def, use subs_for_key(2) in blast, simp)
  have m5: "map_of (get_subs s conds) (''_warpall'' @ str_nat (?C + i) @ ''/varcope1_trans.'') =
           Some (''varcope'' @ fmt_02d (i + 1) @ ''.'')"
    by (rule get_subs_map_of [OF assms]) (simp add: subs_for_def, use subs_for_key(4) in blast, simp)
  have m6: "map_of (get_subs s conds) (''_warpall'' @ str_nat (2 * ?C + i) @ ''/zstat1_trans.'') =
           Some (''zstat'' @ fmt_02d (i + 1) @ ''.'')"
    by (rule get_subs_map_of [OF assms]) (simp add: subs_for_def, use subs_for_key(6) in blast, simp)
  show ?thesis
    unfolding n5 n6 n7 n8 n9 n10 m1 m2 m3 m4 m5 m6 by (simp add: subs_for_def)
qed

theorem get_subs_warp_offsets_witness:
  "(0::nat) < length [''taskA'', ''taskB'']
   \<and> get_subs ''01'' [''taskA'', ''taskB''] ! 6 = (''_warpall0/cope1_warp.'', ''cope01.'')
   \<and> get_subs ''01'' [''taskA'', ''taskB''] ! 7 = (''_warpall2/varcope1_warp.'', ''varcope01.'')
   \<and> get_subs ''01'' [''taskA'', ''taskB''] ! 8 = (''_warpall4/zstat1_warp.'', ''zstat01.'')
   \<and> map_of (get_subs ''01'' [''taskA'', ''taskB'']) ''_warpall2/varcope1_warp.'' = Some ''varcope01.''
   \<and> map_of (get_subs ''01'' [''taskA'', ''taskB'']) ''_warpall4/zstat1_warp.'' = Some ''zstat01.''"
  using get_subs_warp_offsets [of 0 "[''taskA'', ''taskB'']" "''01''"]
  by (simp add: str_nat.simps fmt_02d_def digit_char_def)

text \<open>
  Claim C3. The table is never empty and its first entry erases the subject directory:
  it pairs \<^verbatim>\<open>_subject_id_\<close> followed by the subject identifier with the empty string. The
  eleven entries written for the contrast index \<open>i\<close> all name their file with the number
  \<open>i + 1\<close> in the \<^verbatim>\<open>%02d\<close> format: a zero and one digit below ten (\<^verbatim>\<open>01\<close> for index 0,
  \<^verbatim>\<open>02\<close> for index 1), the plain decimal digits from ten on.
\<close>

theorem get_subs_first_entry_and_suffix:
  "get_subs s conds \<noteq> [] \<and> hd (get_subs s conds) = (''_subject_id_'' @ s, '''')
   \<and> (\<forall>i<length conds.
         map snd (take 11 (drop (1 + 11 * i) (get_subs s conds))) =
           [''cope'' @ fmt_02d (i + 1) @ ''.'', ''varcope'' @ fmt_02d (i + 1) @ ''.'',
            ''zstat'' @ fmt_02d (i + 1) @ ''.'', ''tstat'' @ fmt_02d (i + 1) @ ''.'',
            ''res4d'' @ fmt_02d (i + 1) @ ''.'', ''cope'' @ fmt_02d (i + 1) @ ''.'',
            ''varcope'' @ fmt_02d (i + 1) @ ''.'', ''zstat'' @ fmt_02d (i + 1) @ ''.'',
            ''cope'' @ fmt_02d (i + 1) @ ''.'', ''varcope'' @ fmt_02d (i + 1) @ ''.'',
            ''zstat'' @ fmt_02d (i + 1) @ ''.''])
   \<and> (\<forall>i. fmt_02d (i + 1) =
         (if i + 1 < 10 then [CHR ''0'', digit_char (i + 1)] else str_nat (i + 1)))
   \<and> fmt_02d (0 + 1) = ''01'' \<and> fmt_02d (1 + 1) = ''02''"
proof -
  have first: "get_subs s conds \<noteq> [] \<and> hd (get_subs s conds) = (''_subject_id_'' @ s, '''')"
    by (simp add: get_subs_def)
  have block: "\<forall>i<length conds.
         map snd (take 11 (drop (1 + 11 * i) (get_subs s conds))) =
           [''cope'' @ fmt_02d (i + 1) @ ''.'', ''varcope'' @ fmt_02d (i + 1) @ ''.'',
            ''zstat'' @ fmt_02d (i + 1) @ ''.'', ''tstat'' @ fmt_02d (i + 1) @ ''.'',
            ''res4d'' @ fmt_02d (i + 1) @ ''.'', ''cope'' @ fmt_02d (i + 1) @ ''.'',
            ''varcope'' @ fmt_02d (i + 1) @ ''.'', ''zstat'' @ fmt_02d (i + 1) @ ''.'',
            ''cope'' @ fmt_02d (i + 1) @ ''.'', ''varcope'' @ fmt_02d (i + 1) @ ''.'',
            ''zstat'' @ fmt_02d (i + 1) @ ''.'']"
  proof (intro allI impI)
    fix i assume "i < length conds"
    then have "take 11 (drop (1 + 11 * i) (get_subs s conds)) = subs_for (length conds) i"
      by (rule get_subs_block)
    then show "map snd (take 11 (drop (1 + 11 * i) (get_subs s conds))) =
           [''cope'' @ fmt_02d (i + 1) @ ''.'', ''varcope'' @ fmt_02d (i + 1) @ ''.'',
            ''zstat'' @ fmt_02d (i + 1) @ ''.'', ''tstat'' @ fmt_02d (i + 1) @ ''.'',
            ''res4d'' @ fmt_02d (i + 1) @ ''.'', ''cope'' @ fmt_02d (i + 1) @ ''.'',
            ''varcope'' @ fmt_02d (i + 1) @ ''.'', ''zstat'' @ fmt_02d (i + 1) @ ''.'',
            ''cope'' @ fmt_02d (i + 1) @ ''.'', ''varcope'' @ fmt_02d (i + 1) @ ''.'',
            ''zstat'' @ fmt_02d (i + 1) @ ''.'']"
      by (simp only:) (simp add: subs_for_def)
  qed
  have pad: "\<forall>i. fmt_02d (i + 1) =
         (if i + 1 < 10 then [CHR ''0'', digit_char (i + 1)] else str_nat (i + 1))"
    using fmt_02d_small fmt_02d_large by (simp add: not_less)
  have ex: "fmt_02d (0 + 1) = ''01'' \<and> fmt_02d (1 + 1) = ''02''"
    by (simp add: fmt_02d_small digit_char_def)
  from first block pad ex show ?thesis by blast
qed

theorem get_subs_first_entry_and_suffix_witness:
  "(1::nat) < length [''taskA'', ''taskB'']
   \<and> hd (get_subs ''01'' [''taskA'', ''taskB'']) = (''_subject_id_01'', '''')
   \<and> map snd (take 11 (drop 1 (get_subs ''01'' [''taskA'', ''taskB'']))) =
        [''cope01.'', ''varcope01.'', ''zstat01.'', ''tstat01.'', ''res4d01.'', ''cope01.'',
         ''varcope01.'', ''zstat01.'', ''cope01.'', ''varcope01.'', ''zstat01.'']
   \<and> map snd (take 11 (drop 12 (get_subs ''01'' [''taskA'', ''taskB'']))) =
        [''cope02.'', ''varcope02.'', ''zstat02.'', ''tstat02.'', ''res4d02.'', ''cope02.'',
         ''varcope02.'', ''zstat02.'', ''cope02.'', ''varcope02.'', ''zstat02.'']"
proof -
  note t = get_subs_first_entry_and_suffix [of "''01''" "[''taskA'', ''taskB'']"]
  from t have h: "hd (get_subs ''01'' [''taskA'', ''taskB'']) = (''_subject_id_'' @ ''01'', '''')"
    by blast
  from t have b: "\<forall>i<length [''taskA'', ''taskB''].
         map snd (take 11 (drop (1 + 11 * i) (get_subs ''01'' [''taskA'', ''taskB'']))) =
           [''cope'' @ fmt_02d (i + 1) @ ''.'', ''varcope'' @ fmt_02d (i + 1) @ ''.'',
            ''zstat'' @ fmt_02d (i + 1) @ ''.'', ''tstat'' @ fmt_02d (i + 1) @ ''.'',
            ''res4d'' @ fmt_02d (i + 1) @ ''.'', ''cope'' @ fmt_02d (i + 1) @ ''.'',
            ''varcope'' @ fmt_02d (i + 1) @ ''.'', ''zstat'' @ fmt_02d (i + 1) @ ''.'',
            ''cope'' @ fmt_02d (i + 1) @ ''.'', ''varcope'' @ fmt_02d (i + 1) @ ''.'',
            ''zstat'' @ fmt_02d (i + 1) @ ''.'']"
    by blast
  from t have e: "fmt_02d (0 + 1) = ''01''" "fmt_02d (1 + 1) = ''02''" by blast+
  have l: "(0::nat) < length [''taskA'', ''taskB'']" "(1::nat) < length [''taskA'', ''taskB'']"
    by simp_all
  from b [rule_format, OF l(1)] b [rule_format, OF l(2)] h e l(2)
  show ?thesis by simp
qed

subsection \<open>Occurrences of a pattern in a rewritten path\<close>

lemma occurrence_avoids_inserted:
  assumes p: "p = c # p'" and c: "c \<notin> set r"
    and pd: "p = q @ [d]" and dq: "d \<notin> set q"
    and rd: "r = s @ [d]" and ds: "d \<notin> set s"
    and ns: "\<not> suffix r p"
    and eq: "u @ r @ v = a @ p @ b"
  shows "length a + length p \<le> length u \<or> length u + length r \<le> length a"
proof -
  from eq consider w where "u = a @ w" "w @ r @ v = p @ b" | w where "u @ w = a" "r @ v = w @ p @ b"
    unfolding append_eq_append_conv2 by blast
  then show ?thesis
  proof cases
    case 1
    from 1(2) consider x where "w = p @ x" | x where "w @ x = p" "r @ v = x @ b"
      unfolding append_eq_append_conv2 by blast
    then show ?thesis
    proof cases
      case 1
      with \<open>u = a @ w\<close> show ?thesis by simp
    next
      case 2
      from 2(2) consider y where "r = x @ y" | y where "r @ y = x"
        unfolding append_eq_append_conv2 by blast
      then show ?thesis
      proof cases
        case 1
        show ?thesis
        proof (cases "x = [] \<or> y = []")
          case True
          then show ?thesis
          proof
            assume "x = []"
            with 2(1) \<open>u = a @ w\<close> show ?thesis by simp
          next
            assume "y = []"
            with 1 2(1) ns show ?thesis by (auto simp: suffix_def)
          qed
        next
          case False
          then have x: "x \<noteq> []" and y: "y \<noteq> []" by simp_all
          from x 2(1) pd have "last x = d" by (metis last_appendR last_snoc)
          with x have "d \<in> set x" by (metis last_in_set)
          moreover from y 1 rd have "s = x @ butlast y"
            by (metis butlast_append butlast_snoc)
          ultimately show ?thesis using ds by simp
        qed
      next
        case 1: 2
        show ?thesis
        proof (cases "y = []")
          case True
          with 1 2(1) ns show ?thesis by (auto simp: suffix_def)
        next
          case False
          with 1 2(1) pd have "q = w @ r @ butlast y"
            by (metis append_assoc butlast_append butlast_snoc)
          with rd dq show ?thesis by simp
        qed
      qed
    qed
  next
    case 2
    from 2(2) consider x where "r = w @ x" "x @ v = p @ b" | x where "r @ x = w"
      unfolding append_eq_append_conv2 by blast
    then show ?thesis
    proof cases
      case 1
      show ?thesis
      proof (cases x)
        case Nil
        with 1 \<open>u @ w = a\<close> show ?thesis by auto
      next
        case (Cons e x')
        with 1(2) p have "e = c" by simp
        with Cons 1(1) c show ?thesis by simp
      qed
    next
      case 1: 2
      with \<open>u @ w = a\<close> show ?thesis by auto
    qed
  qed
qed


lemma dot_notin_str_nat: "CHR ''.'' \<notin> set (str_nat n)"
  using str_nat_digits [of n] by auto

lemma fmt_02d_digits: "set (fmt_02d n) \<subseteq> set ''0123456789''"
  using str_nat_digits [of n] by (auto simp: fmt_02d_def Let_def)

lemma dot_notin_fmt_02d: "CHR ''.'' \<notin> set (fmt_02d n)"
  using fmt_02d_digits [of n] by auto

lemma fmt_02d_rev:
  "\<exists>b a ds. rev (fmt_02d n) = b # a # ds \<and> a \<in> set ''0123456789'' \<and> b \<in> set ''0123456789''"
proof -
  have "2 \<le> length (rev (fmt_02d n))"
    by (simp add: fmt_02d_def Let_def)
  then obtain b a ds where r: "rev (fmt_02d n) = b # a # ds"
    by (cases "rev (fmt_02d n)"; cases "tl (rev (fmt_02d n))") auto
  then have "set (fmt_02d n) = set (b # a # ds)" by (metis set_rev)
  with fmt_02d_digits [of n] have "a \<in> set ''0123456789''" and "b \<in> set ''0123456789''"
    by auto
  with r show ?thesis by blast
qed

lemma subs_for_pattern_shape:
  assumes "(p, r) \<in> set (subs_for n i)"
  shows "p \<noteq> []" and "hd p = CHR ''_''"
    and "hd (rev p) = CHR ''.''" and "CHR ''.'' \<notin> set (tl (rev p))"
proof -
  from assms show "p \<noteq> []" by (auto simp: subs_for_def)
  from assms show "hd p = CHR ''_''" by (auto simp: subs_for_def)
  from assms show "hd (rev p) = CHR ''.''" by (auto simp: subs_for_def)
  from assms show "CHR ''.'' \<notin> set (tl (rev p))" by (auto simp: subs_for_def dot_notin_str_nat)
qed


lemma subs_for_pattern_nondigit:
  assumes "(p, r) \<in> set (subs_for n i)"
  shows "rev p ! 1 \<notin> set ''0123456789'' \<or> rev p ! 2 \<notin> set ''0123456789''"
  using assms by (simp add: subs_for_def) (elim disjE conjE; simp)


lemma subs_for_replacement_shape:
  assumes "(p, r) \<in> set (subs_for n i)"
  shows "3 \<le> length r"
    and "hd (rev r) = CHR ''.''" and "CHR ''.'' \<notin> set (tl (rev r))"
    and "rev r ! 1 \<in> set ''0123456789'' \<and> rev r ! 2 \<in> set ''0123456789''"
proof -
  from fmt_02d_rev [of "i + 1"] obtain b a ds where
    f: "rev (fmt_02d (Suc i)) = b # a # ds" and d: "a \<in> set ''0123456789''" "b \<in> set ''0123456789''"
    by auto
  from assms obtain kind where r: "r = kind @ fmt_02d (Suc i) @ ''.''"
    by (auto simp: subs_for_def)
  then have rr: "rev r = CHR ''.'' # b # a # ds @ rev kind"
    by (simp add: f)
  from rr have "length (rev r) = length (CHR ''.'' # b # a # ds @ rev kind)" by (rule arg_cong)
  then show "3 \<le> length r" by simp
  from rr show "hd (rev r) = CHR ''.''" by simp
  from dot_notin_fmt_02d [of "Suc i"] have "CHR ''.'' \<notin> set (rev (fmt_02d (Suc i)))"
    by simp
  moreover from assms r have "CHR ''.'' \<notin> set kind"
    by (auto simp: subs_for_def)
  ultimately show "CHR ''.'' \<notin> set (tl (rev r))"
    unfolding rr f by simp
  from rr d show "rev r ! 1 \<in> set ''0123456789'' \<and> rev r ! 2 \<in> set ''0123456789''"
    by simp
qed

lemma subs_for_no_suffix:
  assumes "(p, r) \<in> set (subs_for n i)" and "(p', r') \<in> set (subs_for n' i')"
  shows "\<not> suffix r' p"
proof
  assume "suffix r' p"
  then obtain zs where "rev p = rev r' @ zs"
    by (auto simp: suffix_def)
  with subs_for_replacement_shape(1) [OF assms(2)]
  have "rev p ! 1 = rev r' ! 1" and "rev p ! 2 = rev r' ! 2"
    by (simp_all add: nth_append)
  with subs_for_pattern_nondigit [OF assms(1)] subs_for_replacement_shape(4) [OF assms(2)]
  show False by metis
qed


lemma get_subs_nth_cases:
  assumes "k < length (get_subs s conds)"
  shows "k = 0 \<and> get_subs s conds ! k = (''_subject_id_'' @ s, '''')
         \<or> 0 < k \<and> (\<exists>i. get_subs s conds ! k \<in> set (subs_for (length conds) i))"
proof (cases k)
  case 0
  then show ?thesis by (simp add: get_subs_def)
next
  case (Suc m)
  with assms have "concat (map (subs_for (length conds)) [0..<length conds]) ! m
      \<in> set (concat (map (subs_for (length conds)) [0..<length conds]))"
    by (intro nth_mem) (simp add: get_subs_def)
  with Suc show ?thesis by (auto simp: get_subs_def)
qed

lemma get_subs_occurrence:
  assumes j: "j < k" and k: "k < length (get_subs s conds)"
    and ne: "snd (get_subs s conds ! j) \<noteq> []"
    and eq: "u @ snd (get_subs s conds ! j) @ v = a @ fst (get_subs s conds ! k) @ b"
  shows "length a + length (fst (get_subs s conds ! k)) \<le> length u
         \<or> length u + length (snd (get_subs s conds ! j)) \<le> length a"
proof -
  obtain pk rk where ek: "get_subs s conds ! k = (pk, rk)" by (cases "get_subs s conds ! k")
  obtain pj rj where ej: "get_subs s conds ! j = (pj, rj)" by (cases "get_subs s conds ! j")
  from j k have "j < length (get_subs s conds)" by simp
  from get_subs_nth_cases [OF this] ne ej obtain ij where mj: "(pj, rj) \<in> set (subs_for (length conds) ij)"
    by auto
  from get_subs_nth_cases [OF k] j ek obtain ik where mk: "(pk, rk) \<in> set (subs_for (length conds) ik)"
    by auto
  note ps = subs_for_pattern_shape [OF mk]
  note rs = subs_for_replacement_shape [OF mj]
  from ps(1,2) have p1: "pk = CHR ''_'' # tl pk" by (cases pk) simp_all
  from subs_for_underscore [OF mj] have c: "CHR ''_'' \<notin> set rj" by simp
  from ps(1) have "rev pk \<noteq> []" by simp
  with ps(3) have "rev pk = CHR ''.'' # tl (rev pk)" by (cases "rev pk") simp_all
  then have p2: "pk = rev (tl (rev pk)) @ [CHR ''.'']" by (simp add: rev_swap)
  from ps(4) have dq: "CHR ''.'' \<notin> set (rev (tl (rev pk)))" by simp
  from rs(1) have "rev rj \<noteq> []" by auto
  with rs(2) have "rev rj = CHR ''.'' # tl (rev rj)" by (cases "rev rj") simp_all
  then have r2: "rj = rev (tl (rev rj)) @ [CHR ''.'']" by (simp add: rev_swap)
  from rs(3) have ds: "CHR ''.'' \<notin> set (rev (tl (rev rj)))" by simp
  from eq ek ej have e: "u @ rj @ v = a @ pk @ b" by simp
  from occurrence_avoids_inserted [OF p1 c p2 dq r2 ds subs_for_no_suffix [OF mk mj] e]
  show ?thesis by (simp add: ek ej)
qed


text \<open>
  Claim C8. For two entries at positions \<open>j < k\<close> of the table, the pattern of entry \<open>k\<close>
  does not occur in the replacement text of entry \<open>j\<close>: every pattern holds an underscore
  and no replacement does. Nor can an occurrence of the pattern share a character with
  that replacement text once it stands in a path: in \<open>u @ r @ v\<close>, where \<open>r\<close> is the text
  that entry \<open>j\<close> has put between \<open>u\<close> and \<open>v\<close>, every occurrence of the pattern of entry \<open>k\<close>
  ends within \<open>u\<close> or begins within \<open>v\<close> (the first entry puts no text at all).
\<close>

theorem get_subs_later_pattern_not_in_earlier_replacement:
  assumes "j < k" and "k < length (get_subs s conds)"
  shows "\<not> sublist (fst (get_subs s conds ! k)) (snd (get_subs s conds ! j))
       \<and> (\<forall>u v a b.
            snd (get_subs s conds ! j) \<noteq> []
            \<and> u @ snd (get_subs s conds ! j) @ v = a @ fst (get_subs s conds ! k) @ b \<longrightarrow>
            length a + length (fst (get_subs s conds ! k)) \<le> length u
            \<or> length u + length (snd (get_subs s conds ! j)) \<le> length a)"
proof (intro conjI allI impI notI)
  assume sub: "sublist (fst (get_subs s conds ! k)) (snd (get_subs s conds ! j))"
  obtain pk rk where k: "get_subs s conds ! k = (pk, rk)" by (cases "get_subs s conds ! k")
  obtain pj rj where j: "get_subs s conds ! j = (pj, rj)" by (cases "get_subs s conds ! j")
  from assms have "get_subs s conds ! k \<in> set (get_subs s conds)"
    and "get_subs s conds ! j \<in> set (get_subs s conds)"
    by simp_all
  with k j have "CHR ''_'' \<in> set pk" and "CHR ''_'' \<notin> set rj"
    using get_subs_underscore by metis+
  moreover from sub k j have "set pk \<subseteq> set rj"
    by (simp add: set_mono_sublist)
  ultimately show False by blast
next
  fix u v a b
  assume "snd (get_subs s conds ! j) \<noteq> []
            \<and> u @ snd (get_subs s conds ! j) @ v = a @ fst (get_subs s conds ! k) @ b"
  then show "length a + length (fst (get_subs s conds ! k)) \<le> length u
            \<or> length u + length (snd (get_subs s conds ! j)) \<le> length a"
    using get_subs_occurrence [OF assms] by blast
qed

theorem get_subs_later_pattern_not_in_earlier_replacement_witness:
  "(1::nat) < 2 \<and> 2 < length (get_subs ''01'' [''taskA''])
   \<and> get_subs ''01'' [''taskA''] ! 2 = (''_flameo0/varcope1.'', ''varcope01.'')
   \<and> get_subs ''01'' [''taskA''] ! 1 = (''_flameo0/cope1.'', ''cope01.'')
   \<and> \<not> sublist ''_flameo0/varcope1.'' ''cope01.''"
proof -
  have l: "(1::nat) < 2" "2 < length (get_subs ''01'' [''taskA''])"
    by (simp_all add: length_get_subs)
  have e: "get_subs ''01'' [''taskA''] ! 2 = (''_flameo0/varcope1.'', ''varcope01.'')"
    "get_subs ''01'' [''taskA''] ! 1 = (''_flameo0/cope1.'', ''cope01.'')"
    by (simp_all add: get_subs_def subs_for_def str_nat.simps fmt_02d_def digit_char_def)
  from get_subs_later_pattern_not_in_earlier_replacement [OF l] e l
  show ?thesis by simp
qed

subsection \<open>Arrays built from regular nestings\<close>

lemma np_shape_atoms: "np_shape (PyList (map Atom row)) = Some [length row]"
  by (cases row) (simp_all add: list_all_iff)

lemma np_shape_matrix:
  assumes "\<forall>row\<in>set rows. length row = c"
  shows "np_shape (PyList (map (\<lambda>row. PyList (map Atom row)) rows)) =
           Some (if rows = [] then [0] else [length rows, c])"
  using assms by (cases rows) (simp_all add: list_all_iff np_shape_atoms)

lemma atoms_of_atoms: "atoms (PyList (map Atom row)) = row"
  by (induction row) simp_all

lemma atoms_matrix: "atoms (PyList (map (\<lambda>row. PyList (map Atom row)) rows)) = concat rows"
proof -
  have "map (\<lambda>row. atoms (PyList (map Atom row))) rows = rows"
    by (simp only: atoms_of_atoms) simp
  then show ?thesis by (simp add: comp_def del: atoms.simps(2) add: atoms.simps(2) [of "map _ rows"])
qed

lemma row_of_concat:
  "\<forall>row\<in>set rows. length row = c \<Longrightarrow> i < length rows \<Longrightarrow>
     take c (drop (i * c) (concat rows)) = rows ! i"
proof (induction rows arbitrary: i)
  case Nil
  then show ?case by simp
next
  case (Cons row rows)
  show ?case
  proof (cases i)
    case 0
    with Cons.prems show ?thesis by simp
  next
    case (Suc k)
    with Cons.prems have "take c (drop (k * c) (concat rows)) = rows ! k"
      by (intro Cons.IH) simp_all
    with Suc Cons.prems show ?thesis by simp
  qed
qed

lemma length_concat_rows:
  "\<forall>row\<in>set rows. length row = c \<Longrightarrow> length (concat rows) = length rows * c"
  by (induction rows) simp_all

lemma np_reshape_concat:
  assumes "\<forall>row\<in>set rows. length row = c"
  shows "np_reshape (concat rows) (length rows) c = Inr rows"
proof -
  have "map (\<lambda>i. take c (drop (i * c) (concat rows))) [0..<length rows] = rows"
    using assms by (intro nth_equalityI) (simp_all add: row_of_concat)
  with length_concat_rows [OF assms] show ?thesis by (simp add: np_reshape_def)
qed

lemma np_T_tolist_transpose:
  assumes "rows \<noteq> []" and "\<forall>row\<in>set rows. length row = c"
  shows "np_T_tolist c rows = transpose rows"
proof -
  have "transpose rows = map (\<lambda>i. map (\<lambda>j. rows ! j ! i) [0..<length rows]) [0..<c]"
    using assms by (intro transpose_rectangle) simp_all
  moreover have "\<And>i. map (\<lambda>j. rows ! j ! i) [0..<length rows] = map (\<lambda>row. row ! i) rows"
    by (intro nth_equalityI) simp_all
  ultimately show ?thesis by (simp add: np_T_tolist_def)
qed

lemma sort_copes_matrices:
  assumes c: "contrasts \<noteq> []"
    and r: "\<forall>row\<in>set rows. length row = length contrasts"
    and v: "\<forall>row\<in>set vrows. length row = length contrasts"
  shows "sort_copes (PyList (map (\<lambda>row. PyList (map Atom row)) rows))
           (PyList (map (\<lambda>row. PyList (map Atom row)) vrows)) contrasts =
         Inr (np_T_tolist (length contrasts) rows, np_T_tolist (length contrasts) vrows,
              length rows)"
proof -
  let ?c = "length contrasts"
  have f1: "np_array_flatten (PyList (map (\<lambda>row. PyList (map Atom row)) rows)) = Inr (concat rows)"
    unfolding np_array_flatten_def np_shape_matrix [OF r] atoms_matrix by simp
  have f2: "np_array_flatten (PyList (map (\<lambda>row. PyList (map Atom row)) vrows)) = Inr (concat vrows)"
    unfolding np_array_flatten_def np_shape_matrix [OF v] atoms_matrix by simp
  have q1: "int_of_quotient (length (concat rows)) ?c = Inr (length rows)"
    using c by (simp add: int_of_quotient_def length_concat_rows [OF r])
  have q2: "int_of_quotient (length (concat vrows)) ?c = Inr (length vrows)"
    using c by (simp add: int_of_quotient_def length_concat_rows [OF v])
  show ?thesis
    unfolding sort_copes_def sort_copes_list_def
    by (simp only: pyval.case Let_def f1 f2 q1 q2 sum.case np_reshape_concat [OF r]
        np_reshape_concat [OF v] length_map)
qed

lemma div_mult_eq_iff: "(n::nat) div c * c = n \<longleftrightarrow> n mod c = 0"
  using div_mult_mod_eq [of n c] by linarith

lemma sort_copes_list_returns_iff:
  "(\<exists>res. sort_copes_list cs v contrasts = Inr res) \<longleftrightarrow>
     np_shape (PyList cs) \<noteq> None \<and> np_shape v \<noteq> None \<and> contrasts \<noteq> []
     \<and> length (atoms (PyList cs)) mod length contrasts = 0
     \<and> length (atoms v) mod length contrasts = 0"
  by (auto simp: sort_copes_list_def np_array_flatten_def int_of_quotient_def np_reshape_def
      div_mult_eq_iff Let_def simp del: np_shape.simps atoms.simps split: option.splits)

lemma sort_copes_list_error:
  "contrasts \<noteq> [] \<Longrightarrow> sort_copes_list cs v contrasts = Inl e \<Longrightarrow> e = ValueError"
  by (auto simp: sort_copes_list_def np_array_flatten_def int_of_quotient_def np_reshape_def
      Let_def simp del: np_shape.simps atoms.simps split: option.splits if_splits)

lemma sort_copes_returns_iff:
  "(\<exists>res. sort_copes copes varcopes contrasts = Inr res) \<longleftrightarrow>
     np_shape copes \<noteq> None \<and> np_shape varcopes \<noteq> None \<and> contrasts \<noteq> []
     \<and> length (atoms copes) mod length contrasts = 0
     \<and> length (atoms varcopes) mod length contrasts = 0"
proof (cases copes)
  case (Atom a)
  then show ?thesis
    unfolding sort_copes_def
    by (simp only: pyval.case sort_copes_list_returns_iff) (simp split: option.splits)
next
  case (PyList cs)
  then show ?thesis
    unfolding sort_copes_def by (simp only: pyval.case sort_copes_list_returns_iff)
qed

lemma sort_copes_error:
  "contrasts \<noteq> [] \<Longrightarrow> sort_copes copes varcopes contrasts = Inl e \<Longrightarrow> e = ValueError"
  unfolding sort_copes_def using sort_copes_list_error by (cases copes) auto

lemma sort_copes_n_runs:
  "sort_copes copes varcopes contrasts = Inr (oc, ov, n) \<Longrightarrow>
     n = (case copes of PyList cs \<Rightarrow> length cs | Atom a \<Rightarrow> 1)"
  by (auto simp: sort_copes_def sort_copes_list_def Let_def split: pyval.splits sum.splits)

subsection \<open>Claims about \<^verbatim>\<open>sort_copes\<close>\<close>

text \<open>
  Claim C2. Let copes be \<open>R \<ge> 1\<close> runs of \<open>C \<ge> 1\<close> elements each, \<open>C\<close> being the number
  of contrasts, and varcopes of the same shape. Then \<^verbatim>\<open>sort_copes\<close> returns, for copes and
  for varcopes, the \<open>C\<close> lists whose \<open>i\<close>-th one holds the \<open>i\<close>-th element of every run in run
  order, that is the transpose, and \<open>n_runs = R\<close>.
\<close>

theorem sort_copes_transpose:
  assumes "rows \<noteq> []" and "contrasts \<noteq> []"
    and "\<forall>row\<in>set rows. length row = length contrasts"
    and "length vrows = length rows"
    and "\<forall>row\<in>set vrows. length row = length contrasts"
  shows "sort_copes (PyList (map (\<lambda>row. PyList (map Atom row)) rows))
           (PyList (map (\<lambda>row. PyList (map Atom row)) vrows)) contrasts =
         Inr (map (\<lambda>i. map (\<lambda>row. row ! i) rows) [0..<length contrasts],
              map (\<lambda>i. map (\<lambda>row. row ! i) vrows) [0..<length contrasts],
              length rows)
       \<and> map (\<lambda>i. map (\<lambda>row. row ! i) rows) [0..<length contrasts] = transpose rows
       \<and> map (\<lambda>i. map (\<lambda>row. row ! i) vrows) [0..<length contrasts] = transpose vrows
       \<and> length (transpose rows) = length contrasts
       \<and> (\<forall>col\<in>set (transpose rows). length col = length rows)"
proof -
  from assms(1,4) have v: "vrows \<noteq> []" by auto
  have t1: "map (\<lambda>i. map (\<lambda>row. row ! i) rows) [0..<length contrasts] = transpose rows"
    using np_T_tolist_transpose [OF assms(1,3)] by (simp add: np_T_tolist_def)
  have t2: "map (\<lambda>i. map (\<lambda>row. row ! i) vrows) [0..<length contrasts] = transpose vrows"
    using np_T_tolist_transpose [OF v assms(5)] by (simp add: np_T_tolist_def)
  have l: "length (transpose rows) = length contrasts"
    unfolding t1 [symmetric] by simp
  have c: "\<forall>col\<in>set (transpose rows). length col = length rows"
    unfolding t1 [symmetric] by auto
  from sort_copes_matrices [OF assms(2,3,5)] t1 t2 l c show ?thesis
    by (simp add: np_T_tolist_def)
qed

theorem sort_copes_transpose_witness:
  "sort_copes
     (PyList [PyList [Atom ''c00'', Atom ''c01''], PyList [Atom ''c10'', Atom ''c11''],
              PyList [Atom ''c20'', Atom ''c21'']])
     (PyList [PyList [Atom ''v00'', Atom ''v01''], PyList [Atom ''v10'', Atom ''v11''],
              PyList [Atom ''v20'', Atom ''v21'']])
     [''taskA'', ''taskB''] =
   Inr ([[''c00'', ''c10'', ''c20''], [''c01'', ''c11'', ''c21'']],
        [[''v00'', ''v10'', ''v20''], [''v01'', ''v11'', ''v21'']], 3)"
proof -
  let ?rows = "[[''c00'', ''c01''], [''c10'', ''c11''], [''c20'', ''c21'']]"
  let ?vrows = "[[''v00'', ''v01''], [''v10'', ''v11''], [''v20'', ''v21'']]"
  let ?cs = "[''taskA'', ''taskB'']"
  have h: "?rows \<noteq> []" "?cs \<noteq> []" "\<forall>row\<in>set ?rows. length row = length ?cs"
    "length ?vrows = length ?rows" "\<forall>row\<in>set ?vrows. length row = length ?cs"
    by simp_all
  have u: "[0..<length ?cs] = [0, 1]" by (simp add: upt_rec)
  from sort_copes_transpose [OF h] show ?thesis
    unfolding u by simp
qed

text \<open>
  Claim C4. When the number of elements of the flattened copes, or of the flattened
  varcopes, is not a multiple of the number of contrasts, \<^verbatim>\<open>sort_copes\<close> returns nothing:
  it raises. With at least one contrast the exception is the \<^verbatim>\<open>ValueError\<close> of numpy (from
  \<^verbatim>\<open>reshape\<close>, or from \<^verbatim>\<open>np.array\<close> on an irregular nesting), the shape mismatch of the
  specification.
\<close>

theorem sort_copes_not_divisible_fails:
  assumes "length (atoms copes) mod length contrasts \<noteq> 0
           \<or> length (atoms varcopes) mod length contrasts \<noteq> 0"
  shows "(\<exists>e. sort_copes copes varcopes contrasts = Inl e)
         \<and> (contrasts \<noteq> [] \<longrightarrow> sort_copes copes varcopes contrasts = Inl ValueError)"
proof -
  from assms have n: "\<not> (\<exists>res. sort_copes copes varcopes contrasts = Inr res)"
    unfolding sort_copes_returns_iff by auto
  then obtain e where e: "sort_copes copes varcopes contrasts = Inl e"
    by (cases "sort_copes copes varcopes contrasts") auto
  with sort_copes_error [of contrasts copes varcopes e] show ?thesis by auto
qed

theorem sort_copes_not_divisible_fails_witness:
  "length (atoms (PyList [Atom ''c0'', Atom ''c1'', Atom ''c2''])) mod length [''taskA'', ''taskB''] \<noteq> 0
   \<and> [''taskA'', ''taskB''] \<noteq> []
   \<and> sort_copes (PyList [Atom ''c0'', Atom ''c1'', Atom ''c2''])
        (PyList [Atom ''v0'', Atom ''v1'', Atom ''v2'']) [''taskA'', ''taskB''] = Inl ValueError"
proof -
  have h: "length (atoms (PyList [Atom ''c0'', Atom ''c1'', Atom ''c2''])) mod length [''taskA'', ''taskB''] \<noteq> 0"
    by code_simp
  have c: "[''taskA'', ''taskB''] \<noteq> []" by simp
  from sort_copes_not_divisible_fails [OF disjI1, OF h,
      of "PyList [Atom ''v0'', Atom ''v1'', Atom ''v2'']"] h c
  show ?thesis by blast
qed

text \<open>
  Claim C5. A cope that is not a list is treated as the single row of a single run: with
  one contrast, the bare cope \<open>a\<close> gives the copes \<open>[[a]]\<close> and \<open>n_runs = 1\<close>, which is also
  what the one-element list \<open>[a]\<close> gives.
\<close>

theorem sort_copes_scalar:
  "sort_copes (Atom a) (Atom v) [c] = Inr ([[a]], [[v]], 1)
   \<and> sort_copes (PyList [Atom a]) (PyList [Atom v]) [c] = Inr ([[a]], [[v]], 1)"
  by (simp add: sort_copes_def sort_copes_list_def np_array_flatten_def int_of_quotient_def
      np_reshape_def np_T_tolist_def)

theorem sort_copes_scalar_witness:
  "sort_copes (Atom (5::nat)) (Atom (7::nat)) [''taskA''] = Inr ([[5]], [[7]], 1)"
  using sort_copes_scalar [of "5::nat" "7::nat" "''taskA''"] by blast

text \<open>
  Claim C6, as the code has it. \<^verbatim>\<open>sort_copes\<close> does not compare the shapes of copes and
  varcopes. It returns a result exactly when each of the two, taken alone, nests regularly
  and has a number of elements that is a multiple of the number of contrasts, which is not
  zero; \<open>n_runs\<close> is then the length of copes alone.
\<close>

theorem sort_copes_no_shape_check:
  "((\<exists>res. sort_copes copes varcopes contrasts = Inr res) \<longleftrightarrow>
      np_shape copes \<noteq> None \<and> np_shape varcopes \<noteq> None \<and> contrasts \<noteq> []
      \<and> length (atoms copes) mod length contrasts = 0
      \<and> length (atoms varcopes) mod length contrasts = 0)
   \<and> (\<forall>oc ov n. sort_copes copes varcopes contrasts = Inr (oc, ov, n) \<longrightarrow>
         n = (case copes of PyList cs \<Rightarrow> length cs | Atom a \<Rightarrow> 1))"
  using sort_copes_returns_iff [of copes varcopes contrasts] sort_copes_n_runs [of copes varcopes contrasts]
  by blast

theorem sort_copes_no_shape_check_witness:
  "np_shape (PyList [PyList [Atom ''c00'', Atom ''c01'']]) = Some [1, 2]
   \<and> np_shape (PyList [PyList [Atom ''v00'', Atom ''v01''], PyList [Atom ''v10'', Atom ''v11'']]) = Some [2, 2]
   \<and> (\<exists>res. sort_copes (PyList [PyList [Atom ''c00'', Atom ''c01'']])
         (PyList [PyList [Atom ''v00'', Atom ''v01''], PyList [Atom ''v10'', Atom ''v11'']])
         [''taskA'', ''taskB''] = Inr res)"
  using sort_copes_no_shape_check [of "PyList [PyList [Atom ''c00'', Atom ''c01'']]"
      "PyList [PyList [Atom ''v00'', Atom ''v01''], PyList [Atom ''v10'', Atom ''v11'']]"
      "[''taskA'', ''taskB'']"]
  by (simp add: mod_Suc)

theorem sort_copes_shape_check_counterexample:
  "np_shape (PyList [PyList [Atom ''c00'', Atom ''c01'']])
     \<noteq> np_shape (PyList [PyList [Atom ''v00'', Atom ''v01''], PyList [Atom ''v10'', Atom ''v11'']])
   \<and> sort_copes (PyList [PyList [Atom ''c00'', Atom ''c01'']])
        (PyList [PyList [Atom ''v00'', Atom ''v01''], PyList [Atom ''v10'', Atom ''v11'']])
        [''taskA'', ''taskB''] =
      Inr ([[''c00''], [''c01'']], [[''v00'', ''v10''], [''v01'', ''v11'']], 1)"
  by code_simp

subsection \<open>The data source\<close>

lemma int_each_set:
  "int_each f xs = Some ns \<Longrightarrow> set ns = {k. \<exists>x\<in>set xs. f x = Some k}"
  by (induction xs arbitrary: ns) (auto split: option.splits)

lemma int_each_total:
  "(\<forall>x\<in>set xs. f x \<noteq> None) \<Longrightarrow> \<exists>ns. int_each f xs = Some ns"
  by (induction xs) auto

lemma groupby_filter_keys:
  "filter (\<lambda>(k, rows). k \<in> S) (groupby col frame) =
     map (\<lambda>k. (k, filter (\<lambda>row. col row = k) frame))
       (filter (\<lambda>k. k \<in> S) (sort (remdups (map col frame))))"
  by (simp add: groupby_def filter_map comp_def)

lemma kept_keys:
  fixes col :: "'r \<Rightarrow> 'k::linorder"
  defines "ks \<equiv> \<lambda>S frame. filter (\<lambda>k. k \<in> S) (sort (remdups (map col frame)))"
  shows "sorted_wrt (<) (ks S frame)" and "set (ks S frame) = col ` set frame \<inter> S"
proof -
  have "sorted (sort (remdups (map col frame)))" and "distinct (sort (remdups (map col frame)))"
    by simp_all
  then have "sorted_wrt (<) (sort (remdups (map col frame)))"
    by (simp add: strict_sorted_iff)
  then show "sorted_wrt (<) (ks S frame)"
    unfolding ks_def by (rule sorted_wrt_filter)
  show "set (ks S frame) = col ` set frame \<inter> S"
    unfolding ks_def by auto
qed

lemma get_data_Inr_iff:
  "get_data py_int bids_dir subject_id event_data runs = Inr (func, bm, bunches) \<longleftrightarrow>
   (\<exists>sid nums r0 rest.
      py_int subject_id = Some sid
      \<and> int_each py_int (map number (filter (\<lambda>r. subject r = subject_id) runs)) = Some nums
      \<and> filter (\<lambda>r. subject r = subject_id) runs = r0 # rest
      \<and> func = map (\<lambda>r. os_path_join bids_dir (func_path r)) (r0 # rest)
      \<and> bm = os_path_join bids_dir (mask_path r0)
      \<and> bunches =
          map (\<lambda>k. make_bunch (filter (\<lambda>e. ev_run e = k) (filter (\<lambda>e. ev_subject e = sid) event_data)))
            (filter (\<lambda>k. k \<in> set nums)
               (sort (remdups (map ev_run (filter (\<lambda>e. ev_subject e = sid) event_data))))))"
  unfolding get_data_def Let_def groupby_filter_keys
  by (auto simp: comp_def split: option.splits list.splits)

lemma get_data_no_match:
  assumes "filter (\<lambda>r. subject r = subject_id) runs = []"
  shows "get_data py_int bids_dir subject_id event_data runs =
           Inl (if py_int subject_id = None then ValueError else IndexError)"
  using assms unfolding get_data_def Let_def by (simp split: option.splits)

lemma get_data_cong:
  assumes "map number (filter (\<lambda>r. subject r = subject_id) runs') =
           map number (filter (\<lambda>r. subject r = subject_id) runs)"
    and "map func_path (filter (\<lambda>r. subject r = subject_id) runs') =
         map func_path (filter (\<lambda>r. subject r = subject_id) runs)"
    and "take 1 (map mask_path (filter (\<lambda>r. subject r = subject_id) runs')) =
         take 1 (map mask_path (filter (\<lambda>r. subject r = subject_id) runs))"
  shows "get_data py_int bids_dir subject_id event_data runs' =
         get_data py_int bids_dir subject_id event_data runs"
proof -
  let ?M = "filter (\<lambda>r. subject r = subject_id) runs"
  let ?M' = "filter (\<lambda>r. subject r = subject_id) runs'"
  have eq: "(case map (os_path_join bids_dir) (map mask_path ?M') of [] \<Rightarrow> Inl IndexError | b # _ \<Rightarrow> Inr (f, b, s)) =
        (case map (os_path_join bids_dir) (map mask_path ?M) of [] \<Rightarrow> Inl IndexError | b # _ \<Rightarrow> Inr (f, b, s))"
    for f :: "string list" and s :: "'a bunch list"
    using assms(3) by (cases ?M; cases ?M') simp_all
  show ?thesis
    unfolding get_data_def Let_def assms(1) assms(2) eq by (rule refl)
qed

subsection \<open>Claims about \<^verbatim>\<open>get_data\<close>\<close>

text \<open>
  Claim C7, as the code has it. Whenever \<^verbatim>\<open>get_data\<close> returns, its bundles are, in ascending
  order of the run number and without repetition, those of the run numbers \<open>k\<close> that occur
  both in the rows of the event table for the subject and as the number of a manifest
  entry of the subject: one bundle for each such \<open>k\<close>, built from the event rows of that
  subject and run. A run that is not in the manifest for the subject contributes no
  bundle, and neither does a manifest run for which the event table has no row.
\<close>

theorem get_data_bunches:
  assumes "get_data py_int bids_dir subject_id event_data runs = Inr (func, bm, bunches)"
  shows "\<exists>sid ks.
           py_int subject_id = Some sid
           \<and> sorted_wrt (<) ks
           \<and> set ks = {k. (\<exists>e\<in>set event_data. ev_subject e = sid \<and> ev_run e = k)
                          \<and> (\<exists>r\<in>set runs. subject r = subject_id \<and> py_int (number r) = Some k)}
           \<and> bunches =
               map (\<lambda>k. make_bunch
                          (filter (\<lambda>e. ev_run e = k) (filter (\<lambda>e. ev_subject e = sid) event_data)))
                 ks"
proof -
  from assms obtain sid nums where
    sid: "py_int subject_id = Some sid"
    and nums: "int_each py_int (map number (filter (\<lambda>r. subject r = subject_id) runs)) = Some nums"
    and b: "bunches =
          map (\<lambda>k. make_bunch (filter (\<lambda>e. ev_run e = k) (filter (\<lambda>e. ev_subject e = sid) event_data)))
            (filter (\<lambda>k. k \<in> set nums)
               (sort (remdups (map ev_run (filter (\<lambda>e. ev_subject e = sid) event_data)))))"
    unfolding get_data_Inr_iff by blast
  let ?ks = "filter (\<lambda>k. k \<in> set nums)
               (sort (remdups (map ev_run (filter (\<lambda>e. ev_subject e = sid) event_data))))"
  have s: "sorted_wrt (<) ?ks"
    by (rule kept_keys(1))
  have "set ?ks = ev_run ` set (filter (\<lambda>e. ev_subject e = sid) event_data) \<inter> set nums"
    by (rule kept_keys(2))
  also have "\<dots> = {k. (\<exists>e\<in>set event_data. ev_subject e = sid \<and> ev_run e = k)
                          \<and> (\<exists>r\<in>set runs. subject r = subject_id \<and> py_int (number r) = Some k)}"
    unfolding int_each_set [OF nums] by auto
  finally have m: "set ?ks = {k. (\<exists>e\<in>set event_data. ev_subject e = sid \<and> ev_run e = k)
                          \<and> (\<exists>r\<in>set runs. subject r = subject_id \<and> py_int (number r) = Some k)}" .
  from sid s m b show ?thesis by blast
qed

theorem get_data_bunches_witness:
  "get_data (map_of [(''01'', 1), (''1'', 1), (''2'', 2)]) ''/data'' ''01''
     [\<lparr>ev_subject = 1, ev_run = 2, ev_condition = ''b'', ev_onset = 4::int, ev_duration = 1,
        ev_amplitude = 1\<rparr>,
      \<lparr>ev_subject = 1, ev_run = 1, ev_condition = ''a'', ev_onset = 0, ev_duration = 2,
        ev_amplitude = 1\<rparr>]
     [\<lparr>subject = ''01'', number = ''2'', func_path = ''f2'', mask_path = ''m2''\<rparr>,
      \<lparr>subject = ''01'', number = ''1'', func_path = ''f1'', mask_path = ''m1''\<rparr>] =
   Inr ([''/data/f2'', ''/data/f1''], ''/data/m2'',
        [\<lparr>conditions = [''a''], onsets = [[0]], durations = [[2]], amplitudes = [[1]]\<rparr>,
         \<lparr>conditions = [''b''], onsets = [[4]], durations = [[1]], amplitudes = [[1]]\<rparr>])
   \<and> (\<exists>sid ks.
           map_of [(''01'', 1), (''1'', 1), (''2'', 2)] ''01'' = Some sid
           \<and> sorted_wrt (<) ks
           \<and> set ks = {k. (\<exists>e\<in>set [\<lparr>ev_subject = 1, ev_run = 2, ev_condition = ''b'', ev_onset = 4::int, ev_duration = 1,
        ev_amplitude = 1\<rparr>,
      \<lparr>ev_subject = 1, ev_run = 1, ev_condition = ''a'', ev_onset = 0, ev_duration = 2,
        ev_amplitude = 1\<rparr>]. ev_subject e = sid \<and> ev_run e = k)
                          \<and> (\<exists>r\<in>set [\<lparr>subject = ''01'', number = ''2'', func_path = ''f2'', mask_path = ''m2''\<rparr>,
      \<lparr>subject = ''01'', number = ''1'', func_path = ''f1'', mask_path = ''m1''\<rparr>]. subject r = ''01'' \<and> (map_of [(''01'', 1), (''1'', 1), (''2'', 2)]) (number r) = Some k)}
           \<and> [\<lparr>conditions = [''a''], onsets = [[0]], durations = [[2]], amplitudes = [[1]]\<rparr>,
         \<lparr>conditions = [''b''], onsets = [[4]], durations = [[1]], amplitudes = [[1]]\<rparr>] =
               map (\<lambda>k. make_bunch
                          (filter (\<lambda>e. ev_run e = k) (filter (\<lambda>e. ev_subject e = sid) [\<lparr>ev_subject = 1, ev_run = 2, ev_condition = ''b'', ev_onset = 4::int, ev_duration = 1,
        ev_amplitude = 1\<rparr>,
      \<lparr>ev_subject = 1, ev_run = 1, ev_condition = ''a'', ev_onset = 0, ev_duration = 2,
        ev_amplitude = 1\<rparr>])))
                 ks)"
proof -
  have h: "get_data (map_of [(''01'', 1), (''1'', 1), (''2'', 2)]) ''/data'' ''01''
     [\<lparr>ev_subject = 1, ev_run = 2, ev_condition = ''b'', ev_onset = 4::int, ev_duration = 1,
        ev_amplitude = 1\<rparr>,
      \<lparr>ev_subject = 1, ev_run = 1, ev_condition = ''a'', ev_onset = 0, ev_duration = 2,
        ev_amplitude = 1\<rparr>]
     [\<lparr>subject = ''01'', number = ''2'', func_path = ''f2'', mask_path = ''m2''\<rparr>,
      \<lparr>subject = ''01'', number = ''1'', func_path = ''f1'', mask_path = ''m1''\<rparr>] =
   Inr ([''/data/f2'', ''/data/f1''], ''/data/m2'',
        [\<lparr>conditions = [''a''], onsets = [[0]], durations = [[2]], amplitudes = [[1]]\<rparr>,
         \<lparr>conditions = [''b''], onsets = [[4]], durations = [[1]], amplitudes = [[1]]\<rparr>])"
    by code_simp
  show ?thesis
    by (rule conjI [OF h get_data_bunches [OF h]])
qed

theorem get_data_one_bunch_per_manifest_run_counterexample:
  "map subject
     [\<lparr>subject = ''01'', number = ''1'', func_path = ''f1'', mask_path = ''m1''\<rparr>,
      \<lparr>subject = ''01'', number = ''2'', func_path = ''f2'', mask_path = ''m2''\<rparr>] = [''01'', ''01'']
   \<and> get_data (map_of [(''01'', 1), (''1'', 1), (''2'', 2)]) ''/data'' ''01''
     [\<lparr>ev_subject = 1, ev_run = 1, ev_condition = ''a'', ev_onset = 0::int, ev_duration = 2,
        ev_amplitude = 1\<rparr>]
     [\<lparr>subject = ''01'', number = ''1'', func_path = ''f1'', mask_path = ''m1''\<rparr>,
      \<lparr>subject = ''01'', number = ''2'', func_path = ''f2'', mask_path = ''m2''\<rparr>] =
   Inr ([''/data/f1'', ''/data/f2''], ''/data/m1'',
        [\<lparr>conditions = [''a''], onsets = [[0]], durations = [[2]], amplitudes = [[1]]\<rparr>])"
  by code_simp

text \<open>
  Claim C9. When the manifest has an entry for the subject, the brainmask that \<^verbatim>\<open>get_data\<close>
  returns is \<^verbatim>\<open>os.path.join\<close> of \<^verbatim>\<open>bids_dir\<close> and the mask path of the first such entry in
  manifest order, and \<^verbatim>\<open>get_data\<close> does return whenever \<^verbatim>\<open>int\<close> reads the subject identifier
  and the run numbers of the subject's entries. The mask paths of the other entries have
  no effect: a manifest with the same subjects, numbers and functional paths, and the same
  mask path at the first entry of the subject, gives the same result.
\<close>

theorem get_data_brainmask_first_match:
  assumes "filter (\<lambda>r. subject r = subject_id) runs = r0 # rest"
  shows "(\<forall>func bm bunches.
            get_data py_int bids_dir subject_id event_data runs = Inr (func, bm, bunches) \<longrightarrow>
            bm = os_path_join bids_dir (mask_path r0))
       \<and> (py_int subject_id \<noteq> None \<and> (\<forall>r\<in>set (r0 # rest). py_int (number r) \<noteq> None) \<longrightarrow>
            (\<exists>func bunches. get_data py_int bids_dir subject_id event_data runs =
               Inr (func, os_path_join bids_dir (mask_path r0), bunches)))
       \<and> (\<forall>runs'.
            map subject runs' = map subject runs \<and> map number runs' = map number runs
            \<and> map func_path runs' = map func_path runs
            \<and> map mask_path (take 1 (filter (\<lambda>r. subject r = subject_id) runs')) = [mask_path r0] \<longrightarrow>
            get_data py_int bids_dir subject_id event_data runs' =
            get_data py_int bids_dir subject_id event_data runs)"
proof (intro conjI allI impI)
  fix func bm bunches
  assume "get_data py_int bids_dir subject_id event_data runs = Inr (func, bm, bunches)"
  with assms show "bm = os_path_join bids_dir (mask_path r0)"
    unfolding get_data_Inr_iff by auto
next
  assume a: "py_int subject_id \<noteq> None \<and> (\<forall>r\<in>set (r0 # rest). py_int (number r) \<noteq> None)"
  then obtain sid where sid: "py_int subject_id = Some sid" by auto
  from a have "\<forall>x\<in>set (map number (r0 # rest)). py_int x \<noteq> None" by simp
  then obtain nums where "int_each py_int (map number (r0 # rest)) = Some nums"
    using int_each_total by blast
  with sid assms
  show "\<exists>func bunches. get_data py_int bids_dir subject_id event_data runs =
               Inr (func, os_path_join bids_dir (mask_path r0), bunches)"
    unfolding get_data_Inr_iff by simp
next
  fix runs' :: "run_info list"
  assume a: "map subject runs' = map subject runs \<and> map number runs' = map number runs
            \<and> map func_path runs' = map func_path runs
            \<and> map mask_path (take 1 (filter (\<lambda>r. subject r = subject_id) runs')) = [mask_path r0]"
  have sel: "map g (filter (\<lambda>r. subject r = subject_id) xs) =
             map snd (filter (\<lambda>p. fst p = subject_id) (zip (map subject xs) (map g xs)))"
    for g :: "run_info \<Rightarrow> string" and xs
    by (induction xs) simp_all
  from a have n: "map number (filter (\<lambda>r. subject r = subject_id) runs') =
           map number (filter (\<lambda>r. subject r = subject_id) runs)"
    and f: "map func_path (filter (\<lambda>r. subject r = subject_id) runs') =
         map func_path (filter (\<lambda>r. subject r = subject_id) runs)"
    unfolding sel by simp_all
  from a assms have m: "take 1 (map mask_path (filter (\<lambda>r. subject r = subject_id) runs')) =
         take 1 (map mask_path (filter (\<lambda>r. subject r = subject_id) runs))"
    by (simp add: take_map)
  from n f m show "get_data py_int bids_dir subject_id event_data runs' =
            get_data py_int bids_dir subject_id event_data runs"
    by (rule get_data_cong)
qed

theorem get_data_brainmask_first_match_witness:
  "filter (\<lambda>r. subject r = ''01'')
     [\<lparr>subject = ''02'', number = ''1'', func_path = ''g1'', mask_path = ''n1''\<rparr>,
      \<lparr>subject = ''01'', number = ''2'', func_path = ''f2'', mask_path = ''m2''\<rparr>,
      \<lparr>subject = ''01'', number = ''1'', func_path = ''f1'', mask_path = ''m1''\<rparr>] =
     [\<lparr>subject = ''01'', number = ''2'', func_path = ''f2'', mask_path = ''m2''\<rparr>,
      \<lparr>subject = ''01'', number = ''1'', func_path = ''f1'', mask_path = ''m1''\<rparr>]
   \<and> (\<exists>func bunches.
         get_data (map_of [(''01'', 1), (''03'', 3), (''1'', 1), (''2'', 2)]) ''/data'' ''01''
           [\<lparr>ev_subject = 1, ev_run = 1, ev_condition = ''a'', ev_onset = 0::int, ev_duration = 2,
        ev_amplitude = 1\<rparr>]
           [\<lparr>subject = ''02'', number = ''1'', func_path = ''g1'', mask_path = ''n1''\<rparr>,
      \<lparr>subject = ''01'', number = ''2'', func_path = ''f2'', mask_path = ''m2''\<rparr>,
      \<lparr>subject = ''01'', number = ''1'', func_path = ''f1'', mask_path = ''m1''\<rparr>] =
         Inr (func, ''/data/m2'', bunches))
   \<and> get_data (map_of [(''01'', 1), (''03'', 3), (''1'', 1), (''2'', 2)]) ''/data'' ''01''
         [\<lparr>ev_subject = 1, ev_run = 1, ev_condition = ''a'', ev_onset = 0::int, ev_duration = 2,
        ev_amplitude = 1\<rparr>]
         [\<lparr>subject = ''02'', number = ''1'', func_path = ''g1'', mask_path = ''elsewhere''\<rparr>,
      \<lparr>subject = ''01'', number = ''2'', func_path = ''f2'', mask_path = ''m2''\<rparr>,
      \<lparr>subject = ''01'', number = ''1'', func_path = ''f1'', mask_path = ''other''\<rparr>] =
       get_data (map_of [(''01'', 1), (''03'', 3), (''1'', 1), (''2'', 2)]) ''/data'' ''01''
         [\<lparr>ev_subject = 1, ev_run = 1, ev_condition = ''a'', ev_onset = 0::int, ev_duration = 2,
        ev_amplitude = 1\<rparr>]
         [\<lparr>subject = ''02'', number = ''1'', func_path = ''g1'', mask_path = ''n1''\<rparr>,
      \<lparr>subject = ''01'', number = ''2'', func_path = ''f2'', mask_path = ''m2''\<rparr>,
      \<lparr>subject = ''01'', number = ''1'', func_path = ''f1'', mask_path = ''m1''\<rparr>]"
proof -
  let ?pi = "map_of [(''01'', 1), (''03'', 3), (''1'', 1), (''2'', 2)]"
  let ?ev = "[\<lparr>ev_subject = 1, ev_run = 1, ev_condition = ''a'', ev_onset = 0::int, ev_duration = 2,
        ev_amplitude = 1\<rparr>]"
  let ?runs = "[\<lparr>subject = ''02'', number = ''1'', func_path = ''g1'', mask_path = ''n1''\<rparr>,
      \<lparr>subject = ''01'', number = ''2'', func_path = ''f2'', mask_path = ''m2''\<rparr>,
      \<lparr>subject = ''01'', number = ''1'', func_path = ''f1'', mask_path = ''m1''\<rparr>]"
  let ?runs' = "[\<lparr>subject = ''02'', number = ''1'', func_path = ''g1'', mask_path = ''elsewhere''\<rparr>,
      \<lparr>subject = ''01'', number = ''2'', func_path = ''f2'', mask_path = ''m2''\<rparr>,
      \<lparr>subject = ''01'', number = ''1'', func_path = ''f1'', mask_path = ''other''\<rparr>]"
  let ?r0 = "\<lparr>subject = ''01'', number = ''2'', func_path = ''f2'', mask_path = ''m2''\<rparr>"
  let ?rest = "[\<lparr>subject = ''01'', number = ''1'', func_path = ''f1'', mask_path = ''m1''\<rparr>]"
  have h: "filter (\<lambda>r. subject r = ''01'') ?runs = ?r0 # ?rest"
    by simp
  note t = get_data_brainmask_first_match [OF h, of ?pi "''/data''" ?ev]
  have p: "?pi ''01'' \<noteq> None \<and> (\<forall>r\<in>set (?r0 # ?rest). ?pi (number r) \<noteq> None)"
    by simp
  from t p have "\<exists>func bunches. get_data ?pi ''/data'' ''01'' ?ev ?runs =
      Inr (func, os_path_join ''/data'' (mask_path ?r0), bunches)"
    by blast
  then have a: "\<exists>func bunches. get_data ?pi ''/data'' ''01'' ?ev ?runs = Inr (func, ''/data/m2'', bunches)"
    by (simp add: os_path_join_def)
  have q: "map subject ?runs' = map subject ?runs \<and> map number ?runs' = map number ?runs
      \<and> map func_path ?runs' = map func_path ?runs
      \<and> map mask_path (take 1 (filter (\<lambda>r. subject r = ''01'') ?runs')) = [mask_path ?r0]"
    by simp
  from t have "\<forall>runs'.
      map subject runs' = map subject ?runs \<and> map number runs' = map number ?runs
      \<and> map func_path runs' = map func_path ?runs
      \<and> map mask_path (take 1 (filter (\<lambda>r. subject r = ''01'') runs')) = [mask_path ?r0] \<longrightarrow>
      get_data ?pi ''/data'' ''01'' ?ev runs' = get_data ?pi ''/data'' ''01'' ?ev ?runs"
    by (elim conjE)
  from this [rule_format, OF q] have b:
    "get_data ?pi ''/data'' ''01'' ?ev ?runs' = get_data ?pi ''/data'' ''01'' ?ev ?runs" .
  from h a b show ?thesis by (intro conjI)
qed

text \<open>
  Claim C10. When no entry of the manifest has the subject identifier, \<^verbatim>\<open>get_data\<close> returns
  nothing: it raises \<^verbatim>\<open>IndexError\<close> at \<^verbatim>\<open>bm[0]\<close>, the list of masks being empty, unless
  \<^verbatim>\<open>int(subject_id)\<close> has raised \<^verbatim>\<open>ValueError\<close> before.
\<close>

theorem get_data_unknown_subject_fails:
  assumes "filter (\<lambda>r. subject r = subject_id) runs = []"
  shows "(\<exists>e. get_data py_int bids_dir subject_id event_data runs = Inl e)
       \<and> get_data py_int bids_dir subject_id event_data runs =
           Inl (if py_int subject_id = None then ValueError else IndexError)"
  unfolding get_data_no_match [OF assms] by simp

theorem get_data_unknown_subject_fails_witness:
  "filter (\<lambda>r. subject r = ''03'')
     [\<lparr>subject = ''02'', number = ''1'', func_path = ''g1'', mask_path = ''n1''\<rparr>,
      \<lparr>subject = ''01'', number = ''2'', func_path = ''f2'', mask_path = ''m2''\<rparr>,
      \<lparr>subject = ''01'', number = ''1'', func_path = ''f1'', mask_path = ''m1''\<rparr>] = []
   \<and> get_data (map_of [(''01'', 1), (''03'', 3), (''1'', 1), (''2'', 2)]) ''/data'' ''03''
         [\<lparr>ev_subject = 1, ev_run = 1, ev_condition = ''a'', ev_onset = 0::int, ev_duration = 2,
        ev_amplitude = 1\<rparr>]
         [\<lparr>subject = ''02'', number = ''1'', func_path = ''g1'', mask_path = ''n1''\<rparr>,
      \<lparr>subject = ''01'', number = ''2'', func_path = ''f2'', mask_path = ''m2''\<rparr>,
      \<lparr>subject = ''01'', number = ''1'', func_path = ''f1'', mask_path = ''m1''\<rparr>] = Inl IndexError"
proof -
  have h: "filter (\<lambda>r. subject r = ''03'')
     [\<lparr>subject = ''02'', number = ''1'', func_path = ''g1'', mask_path = ''n1''\<rparr>,
      \<lparr>subject = ''01'', number = ''2'', func_path = ''f2'', mask_path = ''m2''\<rparr>,
      \<lparr>subject = ''01'', number = ''1'', func_path = ''f1'', mask_path = ''m1''\<rparr>] = []"
    by simp
  from get_data_unknown_subject_fails [OF h, of "map_of [(''01'', 1), (''03'', 3), (''1'', 1), (''2'', 2)]" "''/data''"
      "[\<lparr>ev_subject = 1, ev_run = 1, ev_condition = ''a'', ev_onset = 0::int, ev_duration = 2,
        ev_amplitude = 1\<rparr>]"] h
  show ?thesis by simp
qed

end
